theory Spec2Isabelle
  imports Complex_Main "HOL-Library.FSet" "HOL-Library.AList" "HOL-Library.Log_Nat"
begin

section \<open>The poll cog of the bot: data model\<close>

text \<open>
  The cog \<^verbatim>\<open>Poll\<close> of \<^verbatim>\<open>cogs/poll.py\<close> keeps its open polls in the dictionary
  \<^verbatim>\<open>active_polls\<close>, from the identifier of the poll message to a dictionary
  \<^verbatim>\<open>poll_data\<close> with seven fixed keys. The inner dictionary is a record here. Its entry
  \<^verbatim>\<open>votes\<close> is itself a dictionary from option index to a set of user identifiers; it is
  modelled as the list of its items in insertion order (Python dictionaries keep it), with
  finite sets as values. Identifiers and indices are Python integers. A
  \<^verbatim>\<open>datetime\<close> is the number of microseconds since 0001-01-01 00:00:00, the resolution
  of the type. A Python string is a list of characters; a character stands for a code
  point below 256.
\<close>

type_synonym votes_dict = "(int \<times> int fset) list"

record poll_data =
  title :: string
  options :: "string list"
  votes :: votes_dict
  multiple :: bool
  author_id :: int
  end_time :: int
  channel_id :: int

type_synonym registry = "int \<rightharpoonup> poll_data"

datatype error = KeyError | ValueError | OverflowError | AdapterError

section \<open>Python arithmetic used by the rendering\<close>

text \<open>
  The rendering divides integers with \<^verbatim>\<open>/\<close>, which gives a binary64 float, and goes on
  in floats. A finite float is a rational number; \<open>fl\<close> rounds a rational to the nearest
  number with a 53-bit significand, ties to the even significand, as each float operation
  of Python does with its exact result. The exponent is not bounded: the quantities
  below (percentages, seconds between two datetimes) stay far inside the exponent range
  of binary64, where the two agree.
\<close>

definition round_half_even :: "rat \<Rightarrow> int" where
  "round_half_even x =
     (let f = \<lfloor>x\<rfloor>; d = x - of_int f
      in if d < 1 / 2 then f else if 1 / 2 < d then f + 1
         else if even f then f else f + 1)"

definition flog2 :: "rat \<Rightarrow> int" where
  "flog2 x =
     (let (p, q) = quotient_of x;
          e = int (floorlog 2 (nat p)) - int (floorlog 2 (nat q))
      in if 2 powi e \<le> x then e else e - 1)"

definition fl :: "rat \<Rightarrow> rat" where
  "fl x =
     (if x = 0 then 0
      else let s = 2 powi (flog2 \<bar>x\<bar> - 52)
           in of_int (round_half_even (x / s)) * s)"

text \<open>\<^verbatim>\<open>a / b\<close> on two integers (true division, correctly rounded) and on floats.\<close>

definition truediv :: "rat \<Rightarrow> rat \<Rightarrow> rat" where
  "truediv a b = fl (a / b)"

definition fmul :: "rat \<Rightarrow> rat \<Rightarrow> rat" where
  "fmul a b = fl (a * b)"

text \<open>\<^verbatim>\<open>int(x)\<close> on a float drops the fractional part: it rounds toward zero.\<close>

definition py_int :: "rat \<Rightarrow> int" where
  "py_int x = (if x < 0 then - \<lfloor>- x\<rfloor> else \<lfloor>x\<rfloor>)"

text \<open>
  The format \<^verbatim>\<open>:.1f\<close> prints the decimal with one fractional digit nearest to the
  exact value of the float, a tie going to the even digit. The result is kept as a
  number of tenths.
\<close>

definition format_1f :: "rat \<Rightarrow> int" where
  "format_1f x = round_half_even (x * 10)"

section \<open>The embeds\<close>

text \<open>
  An embed is kept structured: each constructor stands for one f-string of the source,
  and holds the values the f-string interpolates. A bar is the list of its segments.
\<close>

datatype segment = Filled | Blank

datatype field_name =
    Option_name string
  | Winning_option string
  | Numbered_option int string

datatype field_value =
    Tally "segment list" nat int
  | No_votes

datatype embed_title = Poll_title string | Poll_results_title string

datatype footer = Time_remaining int | Poll_has_ended

record embed =
  embed_title :: embed_title
  multiple_note :: bool
  embed_fields :: "(field_name \<times> field_value) list"
  embed_footer :: footer

text \<open>\<^verbatim>\<open>votes[i]\<close> raises KeyError on a missing key.\<close>

definition getitem :: "votes_dict \<Rightarrow> int \<Rightarrow> error + int fset" where
  "getitem vs i = (case map_of vs i of None \<Rightarrow> Inl KeyError | Some s \<Rightarrow> Inr s)"

text \<open>\<^verbatim>\<open>sum(len(votes) for votes in poll_data["votes"].values())\<close>\<close>

definition total_votes :: "votes_dict \<Rightarrow> nat" where
  "total_votes vs = sum_list (map (\<lambda>(k, s). fcard s) vs)"

text \<open>\<^verbatim>\<open>enumerate(xs)\<close>, with Python's integer indices.\<close>

definition enumerate_int :: "'a list \<Rightarrow> (int \<times> 'a) list" where
  "enumerate_int xs = zip (map int [0..<length xs]) xs"

text \<open>
  \<^verbatim>\<open>"X" * int(percentage / 10) + "Y" * (10 - int(percentage / 10))\<close>: a string
  repeated a negative number of times is empty.
\<close>

definition bar :: "rat \<Rightarrow> segment list" where
  "bar percentage =
     replicate (nat (py_int (truediv percentage 10))) Filled @
     replicate (nat (10 - py_int (truediv percentage 10))) Blank"

text \<open>\<^verbatim>\<open>(votes / total_votes * 100) if total_votes > 0 else 0\<close>\<close>

definition percentage :: "nat \<Rightarrow> nat \<Rightarrow> rat" where
  "percentage v tot =
     (if tot > 0 then fmul (truediv (of_nat v) (of_nat tot)) 100 else 0)"

text \<open>The loop of \<^verbatim>\<open>create_poll_embed\<close> over the enumerated options.\<close>

fun poll_fields :: "votes_dict \<Rightarrow> nat \<Rightarrow> (int \<times> string) list \<Rightarrow>
    error + (field_name \<times> field_value) list" where
  "poll_fields vs tot [] = Inr []"
| "poll_fields vs tot ((i, option) # rest) =
     (case getitem vs i of
        Inl e \<Rightarrow> Inl e
      | Inr s \<Rightarrow>
          (let v = fcard s; p = percentage v tot
           in case poll_fields vs tot rest of
                Inl e \<Rightarrow> Inl e
              | Inr fs \<Rightarrow> Inr ((Option_name option, Tally (bar p) v (format_1f p)) # fs)))"

text \<open>
  \<^verbatim>\<open>int(time_left.total_seconds() / 60)\<close>, where \<^verbatim>\<open>time_left\<close> is the difference of
  two datetimes, in microseconds.
\<close>

definition minutes_left :: "int \<Rightarrow> int" where
  "minutes_left time_left = py_int (truediv (truediv (of_int time_left) 1000000) 60)"

definition create_poll_embed :: "poll_data \<Rightarrow> int \<Rightarrow> error + embed" where
  "create_poll_embed p now =
     (case poll_fields (votes p) (total_votes (votes p)) (enumerate_int (options p)) of
        Inl e \<Rightarrow> Inl e
      | Inr fs \<Rightarrow>
          Inr \<lparr>embed_title = Poll_title (title p), multiple_note = multiple p,
               embed_fields = fs, embed_footer = Time_remaining (minutes_left (end_time p - now))\<rparr>)"

section \<open>Voting\<close>

text \<open>
  The body of \<^verbatim>\<open>PollButton.callback\<close> after the poll has been found: the mutation of
  the vote sets and the action that is reported. The sets are mutated in place, so the
  model returns the dictionary after the mutation.
\<close>

datatype action = Removed_vote_from | Voted_for

definition discard_all :: "int \<Rightarrow> votes_dict \<Rightarrow> votes_dict" where
  "discard_all user_id vs = map (\<lambda>(k, v). (k, v |-| {|user_id|})) vs"

definition toggle :: "votes_dict \<Rightarrow> bool \<Rightarrow> int \<Rightarrow> int \<Rightarrow> error + votes_dict \<times> action" where
  "toggle vs mult option_id user_id =
     (case getitem vs option_id of
        Inl e \<Rightarrow> Inl e
      | Inr s \<Rightarrow>
          if user_id |\<in>| s
          then Inr (AList.update option_id (s |-| {|user_id|}) vs, Removed_vote_from)
          else (let vs' = (if \<not> mult then discard_all user_id vs else vs)
                in case getitem vs' option_id of
                     Inl e \<Rightarrow> Inl e
                   | Inr s' \<Rightarrow>
                       Inr (AList.update option_id (finsert user_id s') vs', Voted_for)))"

text \<open>
  The whole callback. \<open>cog\<close> is what \<^verbatim>\<open>get_cog("Poll")\<close> returns: nothing, or the cog
  with its registry. \<open>adapter_ok\<close> says whether the calls to the messaging platform
  succeed; when they do not, the first of them raises. The registry is returned in
  either case, since the vote sets are mutated before the platform is called.
\<close>

datatype reply =
    No_reply
  | Already_ended
  | Vote_reply embed action int

definition callback :: "registry option \<Rightarrow> int \<Rightarrow> int \<Rightarrow> int \<Rightarrow> int \<Rightarrow> bool \<Rightarrow>
    registry option \<times> (error + reply)" where
  "callback cog message_id option_id user_id now adapter_ok =
     (case cog of
        None \<Rightarrow> (None, Inr No_reply)
      | Some active_polls \<Rightarrow>
          (case active_polls message_id of
             None \<Rightarrow> (cog, if adapter_ok then Inr Already_ended else Inl AdapterError)
           | Some p \<Rightarrow>
               (case toggle (votes p) (multiple p) option_id user_id of
                  Inl e \<Rightarrow> (cog, Inl e)
                | Inr (vs, act) \<Rightarrow>
                    (let p' = p\<lparr>votes := vs\<rparr>;
                         cog' = Some (active_polls(message_id \<mapsto> p'))
                     in case create_poll_embed p' now of
                          Inl e \<Rightarrow> (cog', Inl e)
                        | Inr emb \<Rightarrow>
                            (cog', if adapter_ok then Inr (Vote_reply emb act (option_id + 1))
                                   else Inl AdapterError)))))"

section \<open>Creating a poll\<close>

text \<open>
  \<^verbatim>\<open>str.split(",")\<close> cuts at every comma and keeps empty pieces; \<^verbatim>\<open>str.strip()\<close>
  removes the white space at both ends. The white-space characters below code point 256
  are the ones listed in \<open>isspace\<close>.
\<close>

fun split_str :: "char \<Rightarrow> string \<Rightarrow> string list" where
  "split_str sep [] = [[]]"
| "split_str sep (c # cs) =
     (if c = sep then [] # split_str sep cs
      else (case split_str sep cs of [] \<Rightarrow> [[c]] | w # ws \<Rightarrow> (c # w) # ws))"

definition isspace :: "char \<Rightarrow> bool" where
  "isspace c = (of_char c \<in> {9, 10, 11, 12, 13, 28, 29, 30, 31, 32, 133, 160 :: nat})"

definition strip :: "string \<Rightarrow> string" where
  "strip s = rev (dropWhile isspace (rev (dropWhile isspace s)))"

text \<open>
  \<^verbatim>\<open>datetime.now() + timedelta(minutes=duration)\<close>: the timedelta must have at most
  999999999 days in magnitude, and the sum must not leave the years 1 to 9999; otherwise
  OverflowError is raised.
\<close>

definition max_datetime :: int where
  "max_datetime = 315537897600000000 - 1"

definition add_minutes :: "int \<Rightarrow> int \<Rightarrow> error + int" where
  "add_minutes now duration =
     (let t = now + duration * 60000000
      in if - 999999999 \<le> duration div 1440 \<and> duration div 1440 \<le> 999999999 \<and>
            0 \<le> t \<and> t \<le> max_datetime
         then Inr t else Inl OverflowError)"

text \<open>\<^verbatim>\<open>{i: set() for i in range(len(option_list))}\<close>\<close>

definition empty_votes :: "nat \<Rightarrow> votes_dict" where
  "empty_votes n = map (\<lambda>i. (int i, {||})) [0..<n]"

text \<open>
  \<open>publish\<close> is the answer of the messaging platform to \<^verbatim>\<open>send_message\<close>: the
  identifier of the message sent, or nothing when the call raises. \<open>now\<close> and \<open>now'\<close>
  are the two readings of the clock, for the end time and for the embed. A published poll
  comes with its embed, the labels of its buttons and the duration its timer sleeps.
\<close>

datatype create_reply =
    Validation_message string
  | Poll_message int embed "string list" int

definition create_poll :: "registry \<Rightarrow> string \<Rightarrow> string \<Rightarrow> int \<Rightarrow> bool \<Rightarrow> int \<Rightarrow> int \<Rightarrow>
    int \<Rightarrow> int \<Rightarrow> int option \<Rightarrow> registry \<times> (error + create_reply)" where
  "create_poll active_polls title_arg options_arg duration multiple_arg user_id channel now now'
      publish =
     (let option_list = map strip (split_str CHR '','' options_arg)
      in if length option_list < 2
         then (active_polls,
               if publish = None then Inl AdapterError
               else Inr (Validation_message ''At least 2 options required!''))
         else if length option_list > 10
         then (active_polls,
               if publish = None then Inl AdapterError
               else Inr (Validation_message ''Maximum 10 options allowed!''))
         else (case add_minutes now duration of
                 Inl e \<Rightarrow> (active_polls, Inl e)
               | Inr t \<Rightarrow>
                   (let p = \<lparr>title = title_arg, options = option_list,
                              votes = empty_votes (length option_list),
                              multiple = multiple_arg, author_id = user_id,
                              end_time = t, channel_id = channel\<rparr>
                    in case create_poll_embed p now' of
                         Inl e \<Rightarrow> (active_polls, Inl e)
                       | Inr emb \<Rightarrow>
                           (case publish of
                              None \<Rightarrow> (active_polls, Inl AdapterError)
                            | Some message_id \<Rightarrow>
                                (active_polls(message_id \<mapsto> p),
                                 Inr (Poll_message message_id emb option_list duration))))))"

section \<open>Ending a poll\<close>

text \<open>The list \<^verbatim>\<open>option_results\<close> of \<^verbatim>\<open>end_poll\<close>: index, label and number of votes.\<close>

fun option_results :: "votes_dict \<Rightarrow> (int \<times> string) list \<Rightarrow> error + (int \<times> string \<times> nat) list" where
  "option_results vs [] = Inr []"
| "option_results vs ((i, option) # rest) =
     (case getitem vs i of
        Inl e \<Rightarrow> Inl e
      | Inr s \<Rightarrow>
          (case option_results vs rest of
             Inl e \<Rightarrow> Inl e
           | Inr rs \<Rightarrow> Inr ((i, option, fcard s) # rs)))"

text \<open>\<^verbatim>\<open>max\<close> of an empty sequence raises ValueError.\<close>

definition py_max :: "nat list \<Rightarrow> error + nat" where
  "py_max xs = (case xs of [] \<Rightarrow> Inl ValueError | y # ys \<Rightarrow> Inr (fold max ys y))"

definition winner_field :: "nat \<Rightarrow> int \<times> string \<times> nat \<Rightarrow> field_name \<times> field_value" where
  "winner_field tot r =
     (case r of (i, option, v) \<Rightarrow>
        (let p = fmul (truediv (of_nat v) (of_nat tot)) 100
         in (Winning_option option, Tally (bar p) v (format_1f p))))"

definition other_field :: "nat \<Rightarrow> int \<times> string \<times> nat \<Rightarrow> field_name \<times> field_value" where
  "other_field tot r =
     (case r of (i, option, v) \<Rightarrow>
        (let p = fmul (truediv (of_nat v) (of_nat tot)) 100
         in (Numbered_option (i + 1) option, Tally (bar p) v (format_1f p))))"

definition no_votes_field :: "int \<times> string \<times> nat \<Rightarrow> field_name \<times> field_value" where
  "no_votes_field r = (case r of (i, option, v) \<Rightarrow> (Numbered_option (i + 1) option, No_votes))"

definition result_fields :: "poll_data \<Rightarrow> error + (field_name \<times> field_value) list" where
  "result_fields p =
     (let tot = total_votes (votes p)
      in case option_results (votes p) (enumerate_int (options p)) of
           Inl e \<Rightarrow> Inl e
         | Inr rs \<Rightarrow>
             if tot > 0
             then (case py_max (map (\<lambda>(i, option, v). v) rs) of
                     Inl e \<Rightarrow> Inl e
                   | Inr max_votes \<Rightarrow>
                       (let winners = filter (\<lambda>res. snd (snd res) = max_votes) rs;
                            others = filter (\<lambda>res. snd (snd res) \<noteq> max_votes) rs
                        in Inr (map (winner_field tot) winners @ map (other_field tot) others)))
             else Inr (map no_votes_field rs))"

text \<open>
  \<open>adapter_ok\<close> says whether fetching and editing the poll message and sending the
  results succeed. A failure is caught and printed, so it only shows in the reply.
\<close>

datatype end_reply = Not_active | Results embed bool

definition end_poll :: "registry \<Rightarrow> int \<Rightarrow> bool \<Rightarrow> registry \<times> (error + end_reply)" where
  "end_poll active_polls message_id adapter_ok =
     (case active_polls message_id of
        None \<Rightarrow> (active_polls, Inr Not_active)
      | Some p \<Rightarrow>
          (case result_fields p of
             Inl e \<Rightarrow> (active_polls, Inl e)
           | Inr fs \<Rightarrow>
               (active_polls(message_id := None),
                Inr (Results \<lparr>embed_title = Poll_results_title (title p), multiple_note = False,
                              embed_fields = fs, embed_footer = Poll_has_ended\<rparr> adapter_ok))))"

text \<open>\<^verbatim>\<open>end_poll_timer\<close>, once its sleep is over.\<close>

definition end_poll_timer :: "registry \<Rightarrow> int \<Rightarrow> bool \<Rightarrow> registry \<times> (error + end_reply)" where
  "end_poll_timer active_polls message_id adapter_ok =
     (if message_id \<in> dom active_polls then end_poll active_polls message_id adapter_ok
      else (active_polls, Inr Not_active))"

section \<open>Well-formed polls\<close>

text \<open>
  A poll is created with one entry of \<^verbatim>\<open>votes\<close> per option index, in order. The poll of
  the lunch scenario serves as a concrete poll below: two options, no votes yet.
\<close>

definition votes_wf :: "poll_data \<Rightarrow> bool" where
  "votes_wf p = (map fst (votes p) = map int [0..<length (options p)])"

definition lunch_poll :: poll_data where
  "lunch_poll =
     \<lparr>title = ''Lunch?'', options = [''Pizza'', ''Salad''],
      votes = [(0, {||}), (1, {||})], multiple = False, author_id = 1,
      end_time = 63000000000000000, channel_id = 5\<rparr>"

section \<open>The cog as a transition system\<close>

text \<open>
  The three entry points change the registry: the slash command creates a poll, a button
  click toggles a vote, a timer ends a poll. An event holds the arguments of one call.
  The handlers run one after the other on the event loop, so a run of the cog is a list
  of events applied in order, from the empty registry of a fresh cog.
\<close>

datatype event =
    Create string string int bool int int int int "int option"
  | Vote int int int int bool
  | End int bool

definition step :: "registry \<Rightarrow> event \<Rightarrow> registry" where
  "step active_polls ev =
     (case ev of
        Create title_arg options_arg duration multiple_arg user_id channel now now' publish \<Rightarrow>
          fst (create_poll active_polls title_arg options_arg duration multiple_arg user_id
                 channel now now' publish)
      | Vote message_id option_id user_id now adapter_ok \<Rightarrow>
          (case fst (callback (Some active_polls) message_id option_id user_id now adapter_ok) of
             None \<Rightarrow> active_polls
           | Some active_polls' \<Rightarrow> active_polls')
      | End message_id adapter_ok \<Rightarrow> fst (end_poll_timer active_polls message_id adapter_ok))"

definition run :: "registry \<Rightarrow> event list \<Rightarrow> registry" where
  "run active_polls evs = foldl step active_polls evs"

definition single_choice :: "votes_dict \<Rightarrow> bool" where
  "single_choice vs =
     (\<forall>i j s t u. map_of vs i = Some s \<and> map_of vs j = Some t \<and> u |\<in>| s \<and> u |\<in>| t \<longrightarrow> i = j)"

text \<open>
  In a single-choice poll no voter is in the sets of two options. The registry invariant
  says that every poll is well formed and, when it does not allow multiple choices, single
  choice.
\<close>

definition registry_inv :: "registry \<Rightarrow> bool" where
  "registry_inv active_polls =
     (\<forall>mid p. active_polls mid = Some p \<longrightarrow>
        votes_wf p \<and> (\<not> multiple p \<longrightarrow> single_choice (votes p)))"

section \<open>The votes dictionary\<close>

lemma getitem_Inr_map_of: "getitem vs i = Inr s \<longleftrightarrow> map_of vs i = Some s"
  by (auto simp: getitem_def split: option.splits)

lemma getitem_Inl: "getitem vs i = Inl e \<longleftrightarrow> e = KeyError \<and> i \<notin> fst ` set vs"
  unfolding getitem_def map_of_eq_None_iff[symmetric] by (cases "map_of vs i") auto

lemma getitem_Inr_iff: "(\<exists>s. getitem vs i = Inr s) \<longleftrightarrow> i \<in> fst ` set vs"
proof (cases "getitem vs i")
  case (Inl e)
  then show ?thesis using getitem_Inl[of vs i e] by simp
next
  case (Inr s)
  then show ?thesis using getitem_Inl[of vs i KeyError] by simp
qed

lemma keys_discard_all: "map fst (discard_all u vs) = map fst vs"
  by (induction vs) (auto simp: discard_all_def)

lemma map_of_discard_all:
  "map_of (discard_all u vs) k = map_option (\<lambda>s. s |-| {|u|}) (map_of vs k)"
  by (induction vs) (auto simp: discard_all_def)

lemma keys_update: "map_of vs k = Some s \<Longrightarrow> map fst (AList.update k v vs) = map fst vs"
  using map_of_eq_None_iff[of vs k] by (simp add: update_keys)

lemma wf_in_keys:
  assumes "votes_wf p"
  shows "i \<in> fst ` set (votes p) \<longleftrightarrow> 0 \<le> i \<and> i < int (length (options p))"
proof -
  have "fst ` set (votes p) = set (map fst (votes p))" by simp
  also have "\<dots> = int ` {0..<length (options p)}"
    using assms unfolding votes_wf_def by simp
  also have "\<dots> = {0..<int (length (options p))}"
    by (simp add: image_int_atLeastLessThan)
  finally show ?thesis by simp
qed

text \<open>What a toggle does to the dictionary, read through its lookups.\<close>

lemma toggle_removes:
  assumes "map_of vs i = Some s" "u |\<in>| s"
  shows "toggle vs m i u = Inr (AList.update i (s |-| {|u|}) vs, Removed_vote_from)"
  using assms by (simp add: toggle_def getitem_def)

lemma toggle_adds:
  assumes "map_of vs i = Some s" "u |\<notin>| s"
  shows "toggle vs m i u =
    Inr (AList.update i (finsert u s) (if m then vs else discard_all u vs), Voted_for)"
  using assms by (simp add: toggle_def getitem_def map_of_discard_all Let_def)

lemma toggle_keys:
  assumes "toggle vs m i u = Inr (vs', a)"
  shows "map fst vs' = map fst vs"
proof (cases "map_of vs i")
  case None
  with assms show ?thesis by (simp add: toggle_def getitem_def)
next
  case (Some s)
  show ?thesis
  proof (cases "u |\<in>| s")
    case True
    with assms Some show ?thesis by (auto simp: toggle_removes keys_update)
  next
    case False
    have "map_of (if m then vs else discard_all u vs) i \<noteq> None"
      using Some by (simp add: map_of_discard_all)
    then obtain s' where "map_of (if m then vs else discard_all u vs) i = Some s'" by blast
    from keys_update[OF this] assms Some False show ?thesis
      by (auto simp: toggle_adds keys_discard_all split: if_splits)
  qed
qed

lemma poll_fields_ok:
  "fst ` set es \<subseteq> fst ` set vs \<Longrightarrow> \<exists>fs. poll_fields vs t es = Inr fs"
proof (induction es)
  case Nil
  then show ?case by simp
next
  case (Cons e es)
  obtain i opt where e: "e = (i, opt)" by (cases e)
  from Cons.prems e have "i \<in> fst ` set vs" by simp
  then obtain s where s: "getitem vs i = Inr s" using getitem_Inr_iff by blast
  from Cons.prems have "fst ` set es \<subseteq> fst ` set vs" by simp
  from Cons.IH[OF this] obtain fs where fs: "poll_fields vs t es = Inr fs" ..
  show ?case unfolding e by (simp only: poll_fields.simps s fs sum.case Let_def) blast
qed


lemma keys_enumerate_int: "map fst (enumerate_int xs) = map int [0..<length xs]"
  by (simp add: enumerate_int_def)

lemma create_poll_embed_ok:
  assumes "votes_wf p"
  shows "\<exists>emb. create_poll_embed p now = Inr emb"
proof -
  have "map fst (enumerate_int (options p)) = map fst (votes p)"
    using assms unfolding votes_wf_def keys_enumerate_int by simp
  then have "set (map fst (enumerate_int (options p))) = set (map fst (votes p))"
    by (rule arg_cong)
  then have "fst ` set (enumerate_int (options p)) \<subseteq> fst ` set (votes p)"
    by simp
  from poll_fields_ok[OF this] obtain fs where
    "poll_fields (votes p) (total_votes (votes p)) (enumerate_int (options p)) = Inr fs" ..
  then show ?thesis by (simp add: create_poll_embed_def)
qed

lemma callback_state:
  "fst (callback (Some active_polls) mid i u now ok) =
     Some (case active_polls mid of
             None \<Rightarrow> active_polls
           | Some p \<Rightarrow>
               (case toggle (votes p) (multiple p) i u of
                  Inl e \<Rightarrow> active_polls
                | Inr (vs, act) \<Rightarrow> active_polls(mid \<mapsto> p\<lparr>votes := vs\<rparr>)))"
  unfolding callback_def
  by (simp add: Let_def split: option.split sum.split prod.split)

lemma toggle_out_of_range:
  assumes "i \<notin> fst ` set vs"
  shows "toggle vs m i u = Inl KeyError"
proof -
  have "getitem vs i = Inl KeyError" using assms by (simp add: getitem_Inl)
  then show ?thesis by (simp add: toggle_def)
qed

lemma single_choice_empty_votes: "single_choice (empty_votes n)"
proof -
  have "map_of (empty_votes n) i = Some s \<Longrightarrow> s = {||}" for i s
    unfolding empty_votes_def by (auto dest!: map_of_SomeD)
  then show ?thesis unfolding single_choice_def by blast
qed

lemma votes_wf_empty_votes: "map fst (empty_votes n) = map int [0..<n]"
  by (simp add: empty_votes_def comp_def)

lemma single_choice_toggle:
  assumes "single_choice vs" and "toggle vs False i u = Inr (vs', a)"
  shows "single_choice vs'"
proof (cases "map_of vs i")
  case None
  with assms(2) show ?thesis by (simp add: toggle_def getitem_def)
next
  case (Some s)
  show ?thesis
  proof (cases "u |\<in>| s")
    case True
    with assms(2) Some have vs': "vs' = AList.update i (s |-| {|u|}) vs"
      by (simp add: toggle_removes)
    have sub: "\<exists>t'. map_of vs j = Some t' \<and> t |\<subseteq>| t'" if "map_of vs' j = Some t" for j t
      using that Some unfolding vs' by (cases "j = i") (auto simp: update_conv')
    show ?thesis
      unfolding single_choice_def
    proof (intro allI impI)
      fix j k t1 t2 w
      assume a: "map_of vs' j = Some t1 \<and> map_of vs' k = Some t2 \<and> w |\<in>| t1 \<and> w |\<in>| t2"
      from a sub[of j t1] obtain t1' where 1: "map_of vs j = Some t1'" "w |\<in>| t1'" by auto
      from a sub[of k t2] obtain t2' where 2: "map_of vs k = Some t2'" "w |\<in>| t2'" by auto
      from assms(1) 1 2 show "j = k" unfolding single_choice_def by blast
    qed
  next
    case False
    with assms(2) Some have vs': "vs' = AList.update i (finsert u s) (discard_all u vs)"
      by (simp add: toggle_adds)
    have look: "j = i \<and> t = finsert u s \<or>
                j \<noteq> i \<and> (\<exists>t'. map_of vs j = Some t' \<and> t = t' |-| {|u|})"
      if "map_of vs' j = Some t" for j t
      using that unfolding vs' by (cases "j = i") (auto simp: update_conv' map_of_discard_all)
    show ?thesis
      unfolding single_choice_def
    proof (intro allI impI)
      fix j k t1 t2 w
      assume a: "map_of vs' j = Some t1 \<and> map_of vs' k = Some t2 \<and> w |\<in>| t1 \<and> w |\<in>| t2"
      show "j = k"
      proof (cases "w = u")
        case True
        with a look[of j t1] look[of k t2] show ?thesis by auto
      next
        case wu: False
        from a look[of j t1] wu Some obtain t1' where 1: "map_of vs j = Some t1'" "w |\<in>| t1'"
          by auto
        from a look[of k t2] wu Some obtain t2' where 2: "map_of vs k = Some t2'" "w |\<in>| t2'"
          by auto
        from assms(1) 1 2 show ?thesis unfolding single_choice_def by blast
      qed
    qed
  qed
qed

lemma toggle_lookup:
  assumes "map_of vs i = Some s"
  shows "\<exists>vs' a. toggle vs m i u = Inr (vs', a) \<and>
     (\<forall>j. map_of vs' j =
        map_option (\<lambda>t. if u |\<in>| s then (if j = i then t |-| {|u|} else t)
                        else if j = i then finsert u t
                        else if m then t else t |-| {|u|}) (map_of vs j))"
proof (cases "u |\<in>| s")
  case True
  then show ?thesis using assms
    by (auto simp: toggle_removes update_conv' option.map_ident)
next
  case False
  then show ?thesis using assms
    by (auto simp: toggle_adds update_conv' map_of_discard_all option.map_ident)
qed

lemma create_poll_state:
  "fst (create_poll active_polls t opts d m uid ch now now' publish) =
     (let option_list = map strip (split_str CHR '','' opts)
      in if length option_list < 2 \<or> length option_list > 10 then active_polls
         else (case add_minutes now d of
                 Inl e \<Rightarrow> active_polls
               | Inr t' \<Rightarrow>
                   (case publish of
                      None \<Rightarrow> active_polls
                    | Some message_id \<Rightarrow>
                        active_polls(message_id \<mapsto>
                          \<lparr>title = t, options = option_list,
                           votes = empty_votes (length option_list),
                           multiple = m, author_id = uid, end_time = t', channel_id = ch\<rparr>))))"
proof -
  define ol where "ol = map strip (split_str CHR '','' opts)"
  have wf: "votes_wf \<lparr>title = t, options = ol, votes = empty_votes (length ol),
              multiple = m, author_id = uid, end_time = t', channel_id = ch\<rparr>" for t'
    by (simp add: votes_wf_def votes_wf_empty_votes)
  show ?thesis
  proof (cases "add_minutes now d")
    case (Inl e)
    then show ?thesis
      unfolding create_poll_def ol_def[symmetric] Let_def by simp
  next
    case (Inr t')
    from create_poll_embed_ok[OF wf[of t'], of now'] obtain emb where
      "create_poll_embed \<lparr>title = t, options = ol, votes = empty_votes (length ol),
              multiple = m, author_id = uid, end_time = t', channel_id = ch\<rparr> now' = Inr emb" ..
    with Inr show ?thesis
      unfolding create_poll_def ol_def[symmetric] Let_def
      by (simp split: option.split)
  qed
qed

lemma end_poll_state:
  "fst (end_poll active_polls mid ok) = active_polls \<or>
   fst (end_poll active_polls mid ok) = active_polls(mid := None)"
  unfolding end_poll_def by (simp split: option.split sum.split)

lemma registry_inv_step:
  assumes "registry_inv active_polls"
  shows "registry_inv (step active_polls ev)"
proof (cases ev)
  case (Create t opts d m uid ch now now' publish)
  define ol where "ol = map strip (split_str CHR '','' opts)"
  have new: "votes_wf \<lparr>title = t, options = ol, votes = empty_votes (length ol),
              multiple = m, author_id = uid, end_time = t', channel_id = ch\<rparr> \<and>
             single_choice (votes \<lparr>title = t, options = ol, votes = empty_votes (length ol),
              multiple = m, author_id = uid, end_time = t', channel_id = ch\<rparr>)" for t'
    by (simp add: votes_wf_def votes_wf_empty_votes single_choice_empty_votes)
  have "step active_polls ev = active_polls \<or>
        (\<exists>mid t'. step active_polls ev =
           active_polls(mid \<mapsto> \<lparr>title = t, options = ol, votes = empty_votes (length ol),
              multiple = m, author_id = uid, end_time = t', channel_id = ch\<rparr>))"
    unfolding Create step_def event.case create_poll_state ol_def[symmetric] Let_def
    by (auto split: sum.split option.split)
  then show ?thesis
  proof
    assume "step active_polls ev = active_polls"
    with assms show ?thesis by simp
  next
    assume "\<exists>mid t'. step active_polls ev =
           active_polls(mid \<mapsto> \<lparr>title = t, options = ol, votes = empty_votes (length ol),
              multiple = m, author_id = uid, end_time = t', channel_id = ch\<rparr>)"
    then obtain mid t' where st: "step active_polls ev =
           active_polls(mid \<mapsto> \<lparr>title = t, options = ol, votes = empty_votes (length ol),
              multiple = m, author_id = uid, end_time = t', channel_id = ch\<rparr>)" by blast
    show ?thesis
      unfolding st registry_inv_def
    proof (intro allI impI)
      fix mid' p
      assume a: "(active_polls(mid \<mapsto> \<lparr>title = t, options = ol,
          votes = empty_votes (length ol), multiple = m, author_id = uid, end_time = t',
          channel_id = ch\<rparr>)) mid' = Some p"
      show "votes_wf p \<and> (\<not> multiple p \<longrightarrow> single_choice (votes p))"
      proof (cases "mid' = mid")
        case True
        with a new[of t'] show ?thesis by auto
      next
        case False
        with a assms show ?thesis unfolding registry_inv_def by auto
      qed
    qed
  qed
next
  case (Vote mid i u now ok)
  show ?thesis
  proof (cases "active_polls mid")
    case None
    then show ?thesis using assms unfolding Vote step_def by (simp add: callback_state)
  next
    case (Some p)
    show ?thesis
    proof (cases "toggle (votes p) (multiple p) i u")
      case (Inl e)
      then show ?thesis using assms Some unfolding Vote step_def by (simp add: callback_state)
    next
      case (Inr r)
      obtain vs a where r: "r = (vs, a)" by (cases r)
      from assms Some have p: "votes_wf p" "\<not> multiple p \<longrightarrow> single_choice (votes p)"
        unfolding registry_inv_def by blast+
      from Inr r have keys: "map fst vs = map fst (votes p)" by (simp add: toggle_keys)
      with p(1) have wf': "votes_wf (p\<lparr>votes := vs\<rparr>)" by (simp add: votes_wf_def)
      have sc': "\<not> multiple p \<longrightarrow> single_choice vs"
        using p(2) Inr r single_choice_toggle[of "votes p" i u vs a] by auto
      have st: "step active_polls ev = active_polls(mid \<mapsto> p\<lparr>votes := vs\<rparr>)"
        using Some Inr r unfolding Vote step_def by (simp add: callback_state)
      show ?thesis
        using assms wf' sc' unfolding st registry_inv_def by simp
    qed
  qed
next
  case (End mid ok)
  have "step active_polls ev = active_polls \<or> step active_polls ev = active_polls(mid := None)"
    using end_poll_state[of active_polls mid ok]
    unfolding End step_def end_poll_timer_def by auto
  then show ?thesis using assms unfolding registry_inv_def
    by (auto split: if_splits)
qed

lemma registry_inv_foldl:
  "registry_inv active_polls \<Longrightarrow> registry_inv (foldl step active_polls evs)"
  by (induction evs arbitrary: active_polls) (simp_all add: registry_inv_step)

lemma registry_inv_run: "registry_inv (run Map.empty evs)"
  unfolding run_def by (rule registry_inv_foldl) (simp add: registry_inv_def)


lemma wf_lookup:
  assumes "votes_wf p" and "0 \<le> i" and "i < int (length (options p))"
  shows "\<exists>s. map_of (votes p) i = Some s"
proof -
  from assms have "i \<in> fst ` set (votes p)" by (simp add: wf_in_keys)
  then have "map_of (votes p) i \<noteq> None" by (simp add: map_of_eq_None_iff)
  then show ?thesis by blast
qed

lemma step_Vote:
  assumes "active_polls mid = Some p" and "map_of (votes p) i = Some s"
  shows "\<exists>vs'. step active_polls (Vote mid i u now ok) = active_polls(mid \<mapsto> p\<lparr>votes := vs'\<rparr>) \<and>
     (\<forall>j. map_of vs' j =
        map_option (\<lambda>t. if u |\<in>| s then (if j = i then t |-| {|u|} else t)
                        else if j = i then finsert u t
                        else if multiple p then t else t |-| {|u|}) (map_of (votes p) j))"
proof -
  from toggle_lookup[OF assms(2), of "multiple p" u] obtain vs' a where
    t: "toggle (votes p) (multiple p) i u = Inr (vs', a)" and
    l: "\<forall>j. map_of vs' j =
        map_option (\<lambda>t. if u |\<in>| s then (if j = i then t |-| {|u|} else t)
                        else if j = i then finsert u t
                        else if multiple p then t else t |-| {|u|}) (map_of (votes p) j)"
    by blast
  have "step active_polls (Vote mid i u now ok) = active_polls(mid \<mapsto> p\<lparr>votes := vs'\<rparr>)"
    using assms(1) t unfolding step_def by (simp add: callback_state)
  with l show ?thesis by blast
qed

section \<open>The vote toggle\<close>

text \<open>
  C1. For a poll in the registry whose votes dictionary has the option indices as keys,
  and an option index \<open>i\<close> in range, the callback for voter \<open>u\<close> on option \<open>i\<close> stores
  a votes dictionary with the same keys in which: when \<open>u\<close> already was in the set of
  option \<open>i\<close>, \<open>u\<close> is removed from that set, the other sets are unchanged and the action
  reported is "Removed vote from"; otherwise \<open>u\<close> is added to the set of option \<open>i\<close>, is
  removed from every other set when the poll does not allow multiple choices (the other
  sets are unchanged when it does), and the action reported is "Voted for".
\<close>

theorem vote_toggle_behaviour:
  assumes "active_polls mid = Some p" and "votes_wf p"
    and "0 \<le> i" and "i < int (length (options p))"
  shows "\<exists>s vs' emb.
     map_of (votes p) i = Some s \<and>
     create_poll_embed (p\<lparr>votes := vs'\<rparr>) now = Inr emb \<and>
     callback (Some active_polls) mid i u now ok =
       (Some (active_polls(mid \<mapsto> p\<lparr>votes := vs'\<rparr>)),
        if ok then Inr (Vote_reply emb (if u |\<in>| s then Removed_vote_from else Voted_for) (i + 1))
        else Inl AdapterError) \<and>
     map fst vs' = map fst (votes p) \<and>
     (\<forall>j t. map_of (votes p) j = Some t \<longrightarrow>
        map_of vs' j = Some
          (if u |\<in>| s then (if j = i then t |-| {|u|} else t)
           else if j = i then finsert u t
           else if multiple p then t else t |-| {|u|}))"
proof -
  from assms(2-4) have "i \<in> fst ` set (votes p)" by (simp add: wf_in_keys)
  then obtain s where s: "map_of (votes p) i = Some s"
    using getitem_Inr_iff[of "votes p" i] by (auto simp: getitem_Inr_map_of)
  define vs' where "vs' =
    (if u |\<in>| s then AList.update i (s |-| {|u|}) (votes p)
     else AList.update i (finsert u s) (if multiple p then votes p else discard_all u (votes p)))"
  define act where "act = (if u |\<in>| s then Removed_vote_from else Voted_for)"
  have tog: "toggle (votes p) (multiple p) i u = Inr (vs', act)"
    using s by (simp add: vs'_def act_def toggle_removes toggle_adds)
  have keys: "map fst vs' = map fst (votes p)"
    using toggle_keys[OF tog] .
  have "votes_wf (p\<lparr>votes := vs'\<rparr>)"
    using assms(2) keys by (simp add: votes_wf_def)
  then obtain emb where emb: "create_poll_embed (p\<lparr>votes := vs'\<rparr>) now = Inr emb"
    using create_poll_embed_ok by blast
  have cb: "callback (Some active_polls) mid i u now ok =
       (Some (active_polls(mid \<mapsto> p\<lparr>votes := vs'\<rparr>)),
        if ok then Inr (Vote_reply emb act (i + 1)) else Inl AdapterError)"
    using assms(1) tog emb by (simp add: callback_def)
  have look: "map_of vs' j = Some
          (if u |\<in>| s then (if j = i then t |-| {|u|} else t)
           else if j = i then finsert u t
           else if multiple p then t else t |-| {|u|})"
    if "map_of (votes p) j = Some t" for j t
    using that s by (auto simp: vs'_def update_conv' map_of_discard_all)
  from s emb cb keys look show ?thesis
    unfolding act_def by blast
qed

theorem vote_toggle_behaviour_witness:
  "[7 \<mapsto> lunch_poll] (7::int) = Some lunch_poll \<and> votes_wf lunch_poll \<and>
   (0::int) < int (length (options lunch_poll)) \<and>
   (\<exists>s vs' emb.
     map_of (votes lunch_poll) 0 = Some s \<and>
     create_poll_embed (lunch_poll\<lparr>votes := vs'\<rparr>) 0 = Inr emb \<and>
     callback (Some [7 \<mapsto> lunch_poll]) 7 0 42 0 True =
       (Some ([7 \<mapsto> lunch_poll](7 \<mapsto> lunch_poll\<lparr>votes := vs'\<rparr>)),
        if True then Inr (Vote_reply emb (if 42 |\<in>| s then Removed_vote_from else Voted_for) (0 + 1))
        else Inl AdapterError) \<and>
     map fst vs' = map fst (votes lunch_poll) \<and>
     (\<forall>j t. map_of (votes lunch_poll) j = Some t \<longrightarrow>
        map_of vs' j = Some
          (if 42 |\<in>| s then (if j = 0 then t |-| {|42|} else t)
           else if j = 0 then finsert 42 t
           else if multiple lunch_poll then t else t |-| {|42|})))"
proof -
  have h1: "[7 \<mapsto> lunch_poll] (7::int) = Some lunch_poll" by simp
  have h2: "votes_wf lunch_poll" by (simp add: votes_wf_def lunch_poll_def)
  have h3: "(0::int) \<le> 0" by simp
  have h4: "(0::int) < int (length (options lunch_poll))" by (simp add: lunch_poll_def)
  from vote_toggle_behaviour[where active_polls = "[7 \<mapsto> lunch_poll]" and mid = 7
      and p = lunch_poll and i = 0 and u = 42 and now = 0 and ok = True, OF h1 h2 h3 h4] h1 h2 h4
  show ?thesis by blast
qed

text \<open>
  C8. For a well-formed poll in the registry, a click on a button whose option index is
  outside the range of the option list is rejected: the lookup of the index in the votes
  dictionary raises KeyError before anything is mutated, so the callback ends with that
  error and the registry is unchanged.
\<close>

theorem out_of_range_rejected:
  assumes "active_polls mid = Some p" and "votes_wf p"
    and "i < 0 \<or> int (length (options p)) \<le> i"
  shows "callback (Some active_polls) mid i u now ok = (Some active_polls, Inl KeyError)"
proof -
  from assms(2,3) have "i \<notin> fst ` set (votes p)"
    by (auto simp: wf_in_keys)
  then have "toggle (votes p) (multiple p) i u = Inl KeyError"
    by (rule toggle_out_of_range)
  with assms(1) show ?thesis by (simp add: callback_def)
qed

theorem out_of_range_rejected_witness:
  "[7 \<mapsto> lunch_poll] (7::int) = Some lunch_poll \<and> votes_wf lunch_poll \<and>
   ((2::int) < 0 \<or> int (length (options lunch_poll)) \<le> 2) \<and>
   callback (Some [7 \<mapsto> lunch_poll]) 7 2 42 0 True = (Some [7 \<mapsto> lunch_poll], Inl KeyError)"
proof -
  have h1: "[7 \<mapsto> lunch_poll] (7::int) = Some lunch_poll" by simp
  have h2: "votes_wf lunch_poll" by (simp add: votes_wf_def lunch_poll_def)
  have h3: "(2::int) < 0 \<or> int (length (options lunch_poll)) \<le> 2" by (simp add: lunch_poll_def)
  from out_of_range_rejected[where active_polls = "[7 \<mapsto> lunch_poll]" and mid = 7
      and p = lunch_poll and i = 2 and u = 42 and now = 0 and ok = True, OF h1 h2 h3] h1 h2 h3
  show ?thesis by blast
qed

text \<open>
  C10. A click on a well-formed poll of the registry changes at most the votes dictionary
  of that poll: its title, option list, multiple flag, author, end time and channel are
  the same afterwards, the keys of its votes dictionary are still the option indices
  \<open>0, \<dots>, n - 1\<close>, one entry each, and every other poll of the registry is unchanged.
\<close>

theorem toggle_frame:
  assumes "active_polls mid = Some p" and "votes_wf p"
  shows "\<exists>active_polls' p'.
     fst (callback (Some active_polls) mid i u now ok) = Some active_polls' \<and>
     active_polls' mid = Some p' \<and>
     title p' = title p \<and> options p' = options p \<and> multiple p' = multiple p \<and>
     author_id p' = author_id p \<and> end_time p' = end_time p \<and> channel_id p' = channel_id p \<and>
     map fst (votes p') = map int [0..<length (options p)] \<and>
     (\<forall>m. m \<noteq> mid \<longrightarrow> active_polls' m = active_polls m)"
proof (cases "toggle (votes p) (multiple p) i u")
  case (Inl e)
  then have "fst (callback (Some active_polls) mid i u now ok) = Some active_polls"
    using assms(1) by (simp add: callback_state)
  with assms show ?thesis by (simp add: votes_wf_def)
next
  case (Inr r)
  obtain vs act where r: "r = (vs, act)" by (cases r)
  from Inr r have keys: "map fst vs = map fst (votes p)" by (simp add: toggle_keys)
  from Inr r assms(1)
  have "fst (callback (Some active_polls) mid i u now ok) =
          Some (active_polls(mid \<mapsto> p\<lparr>votes := vs\<rparr>))"
    by (simp add: callback_state)
  with keys assms(2) show ?thesis by (simp add: votes_wf_def)
qed

theorem toggle_frame_witness:
  "[7 \<mapsto> lunch_poll] (7::int) = Some lunch_poll \<and> votes_wf lunch_poll \<and>
   (\<exists>active_polls' p'.
     fst (callback (Some [7 \<mapsto> lunch_poll]) 7 1 42 0 True) = Some active_polls' \<and>
     active_polls' 7 = Some p' \<and>
     title p' = title lunch_poll \<and> options p' = options lunch_poll \<and>
     multiple p' = multiple lunch_poll \<and> author_id p' = author_id lunch_poll \<and>
     end_time p' = end_time lunch_poll \<and> channel_id p' = channel_id lunch_poll \<and>
     map fst (votes p') = map int [0..<length (options lunch_poll)] \<and>
     (\<forall>m. m \<noteq> 7 \<longrightarrow> active_polls' m = [7 \<mapsto> lunch_poll] m))"
proof -
  have h1: "[7 \<mapsto> lunch_poll] (7::int) = Some lunch_poll" by simp
  have h2: "votes_wf lunch_poll" by (simp add: votes_wf_def lunch_poll_def)
  from toggle_frame[where active_polls = "[7 \<mapsto> lunch_poll]" and mid = 7
      and p = lunch_poll and i = 1 and u = 42 and now = 0 and ok = True, OF h1 h2] h1 h2
  show ?thesis by blast
qed

section \<open>Single choice\<close>

text \<open>
  C2. In every state the cog reaches from its empty registry by any list of events, a
  poll that does not allow multiple choices is single choice: no voter is in the sets of
  two options. In particular, when a voter then clicks option \<open>a\<close> and after that another
  option \<open>b\<close> of such a poll, the voter is in the set of \<open>b\<close> and not in the set of \<open>a\<close>.
\<close>

theorem single_choice_invariant:
  assumes "run Map.empty evs mid = Some p" and "\<not> multiple p"
  shows "single_choice (votes p) \<and>
    (\<forall>a b v now ok now' ok'.
       0 \<le> a \<and> a < int (length (options p)) \<and> 0 \<le> b \<and> b < int (length (options p)) \<and> a \<noteq> b
       \<longrightarrow> (\<exists>p' sa sb.
              run Map.empty (evs @ [Vote mid a v now ok, Vote mid b v now' ok']) mid = Some p' \<and>
              map_of (votes p') a = Some sa \<and> v |\<notin>| sa \<and>
              map_of (votes p') b = Some sb \<and> v |\<in>| sb))"
proof
  from registry_inv_run[of evs] assms
  have wf: "votes_wf p" and sc: "single_choice (votes p)"
    unfolding registry_inv_def by blast+
  show "single_choice (votes p)" by (rule sc)
  show "\<forall>a b v now ok now' ok'.
       0 \<le> a \<and> a < int (length (options p)) \<and> 0 \<le> b \<and> b < int (length (options p)) \<and> a \<noteq> b
       \<longrightarrow> (\<exists>p' sa sb.
              run Map.empty (evs @ [Vote mid a v now ok, Vote mid b v now' ok']) mid = Some p' \<and>
              map_of (votes p') a = Some sa \<and> v |\<notin>| sa \<and>
              map_of (votes p') b = Some sb \<and> v |\<in>| sb)"
  proof (intro allI impI)
    fix a b v now ok now' ok'
    assume r: "0 \<le> a \<and> a < int (length (options p)) \<and> 0 \<le> b \<and>
               b < int (length (options p)) \<and> a \<noteq> b"
    define R where "R = run Map.empty evs"
    have Rp: "R mid = Some p" using assms(1) by (simp add: R_def)
    from r wf wf_lookup[of p a] obtain s0 where s0: "map_of (votes p) a = Some s0" by blast
    from r wf wf_lookup[of p b] obtain t0 where t0: "map_of (votes p) b = Some t0" by blast
    from step_Vote[where active_polls = R and mid = mid and u = v and now = now and ok = ok,
        OF Rp s0] obtain vs1 where
      st1: "step R (Vote mid a v now ok) = R(mid \<mapsto> p\<lparr>votes := vs1\<rparr>)" and
      l1: "\<forall>j. map_of vs1 j =
        map_option (\<lambda>t. if v |\<in>| s0 then (if j = a then t |-| {|v|} else t)
                        else if j = a then finsert v t
                        else if multiple p then t else t |-| {|v|}) (map_of (votes p) j)"
      by blast
    have notb: "v |\<in>| s0 \<Longrightarrow> v |\<notin>| t0"
      using sc s0 t0 r unfolding single_choice_def by blast
    define t1 where "t1 = (if v |\<in>| s0 then t0 else t0 |-| {|v|})"
    have b1: "map_of vs1 b = Some t1" and v1: "v |\<notin>| t1"
      using l1 t0 r assms(2) notb by (auto simp: t1_def)
    define p1 where "p1 = p\<lparr>votes := vs1\<rparr>"
    have R1: "(R(mid \<mapsto> p1)) mid = Some p1" by simp
    have b1': "map_of (votes p1) b = Some t1" using b1 by (simp add: p1_def)
    from step_Vote[where active_polls = "R(mid \<mapsto> p1)" and mid = mid and u = v and now = now'
        and ok = ok', OF R1 b1'] obtain vs2 where
      st2: "step (R(mid \<mapsto> p1)) (Vote mid b v now' ok') =
              (R(mid \<mapsto> p1))(mid \<mapsto> p1\<lparr>votes := vs2\<rparr>)" and
      l2: "\<forall>j. map_of vs2 j =
        map_option (\<lambda>t. if v |\<in>| t1 then (if j = b then t |-| {|v|} else t)
                        else if j = b then finsert v t
                        else if multiple p1 then t else t |-| {|v|}) (map_of (votes p1) j)"
      by blast
    have a1: "\<exists>s1. map_of (votes p1) a = Some s1"
      using l1 s0 by (simp add: p1_def)
    then obtain s1 where s1: "map_of (votes p1) a = Some s1" ..
    have m1: "\<not> multiple p1" using assms(2) by (simp add: p1_def)
    have ra: "map_of vs2 a = Some (s1 |-| {|v|})"
      using l2 s1 v1 r m1 by auto
    have rb: "map_of vs2 b = Some (finsert v t1)"
      using l2 b1' v1 by auto
    have "run Map.empty (evs @ [Vote mid a v now ok, Vote mid b v now' ok']) =
            (R(mid \<mapsto> p1))(mid \<mapsto> p1\<lparr>votes := vs2\<rparr>)"
      unfolding run_def foldl_append using st1 st2 by (simp add: R_def run_def p1_def)
    then have "run Map.empty (evs @ [Vote mid a v now ok, Vote mid b v now' ok']) mid =
            Some (p1\<lparr>votes := vs2\<rparr>)" by simp
    with ra rb show "\<exists>p' sa sb.
              run Map.empty (evs @ [Vote mid a v now ok, Vote mid b v now' ok']) mid = Some p' \<and>
              map_of (votes p') a = Some sa \<and> v |\<notin>| sa \<and>
              map_of (votes p') b = Some sb \<and> v |\<in>| sb"
      by auto
  qed
qed

theorem single_choice_invariant_witness:
  "run Map.empty [Create ''Lunch?'' ''Pizza, Salad'' 1 False 1 5 62999999940000000
                    62999999940000005 (Some 7)] 7 = Some lunch_poll \<and>
   \<not> multiple lunch_poll \<and>
   single_choice (votes lunch_poll) \<and>
   (\<exists>p' sa sb.
      run Map.empty ([Create ''Lunch?'' ''Pizza, Salad'' 1 False 1 5 62999999940000000
                    62999999940000005 (Some 7)] @ [Vote 7 0 42 0 True, Vote 7 1 42 0 True]) 7
        = Some p' \<and>
      map_of (votes p') 0 = Some sa \<and> 42 |\<notin>| sa \<and>
      map_of (votes p') 1 = Some sb \<and> 42 |\<in>| sb)"
proof -
  have h1: "run Map.empty [Create ''Lunch?'' ''Pizza, Salad'' 1 False 1 5 62999999940000000
                    62999999940000005 (Some 7)] 7 = Some lunch_poll"
    by (simp add: run_def step_def create_poll_state strip_def isspace_def add_minutes_def
        max_datetime_def empty_votes_def lunch_poll_def)
  have h2: "\<not> multiple lunch_poll" by (simp add: lunch_poll_def)
  have h3: "(0::int) \<le> 0 \<and> 0 < int (length (options lunch_poll)) \<and> (0::int) \<le> 1 \<and>
            1 < int (length (options lunch_poll)) \<and> (0::int) \<noteq> 1"
    by (simp add: lunch_poll_def)
  from single_choice_invariant[OF h1 h2] h3 h1 h2 show ?thesis by blast
qed

end
